theory Spec2Isabelle
  imports Main "HOL-Library.Word"
begin

unbundle bit_operations_syntax

section \<open>Strings and identifier normalisation (utils/auth.ts)\<close>

text \<open>
  A JavaScript string is modelled as a \<^typ>\<open>string\<close> whose characters are the UTF-16
  code units U+0000 .. U+00FF (ASCII and the Latin-1 supplement). On this range
  \<^verbatim>\<open>String.prototype.trim\<close> removes the code units 9, 10, 11, 12, 13, 32 and 160
  (U+0085 is not white space in ECMAScript), and \<^verbatim>\<open>toLowerCase\<close> adds 32 to the
  code units of A-Z and of the Latin-1 capital letters U+00C0 .. U+00DE other than
  the multiplication sign U+00D7.
\<close>

definition isWhiteSpace :: "char \<Rightarrow> bool" where
  "isWhiteSpace c = (of_char c \<in> {9, 10, 11, 12, 13, 32, 160 :: nat})"

definition toLowerChar :: "char \<Rightarrow> char" where
  "toLowerChar c =
     (let n = (of_char c :: nat)
      in if (65 \<le> n \<and> n \<le> 90) \<or> (192 \<le> n \<and> n \<le> 222 \<and> n \<noteq> 215)
         then char_of (n + 32) else c)"

definition trimStart :: "string \<Rightarrow> string" where
  "trimStart s = dropWhile isWhiteSpace s"

definition trimEnd :: "string \<Rightarrow> string" where
  "trimEnd s = rev (dropWhile isWhiteSpace (rev s))"

definition trim :: "string \<Rightarrow> string" where
  "trim s = trimEnd (trimStart s)"

definition toLowerCase :: "string \<Rightarrow> string" where
  "toLowerCase s = map toLowerChar s"

text \<open>\<^verbatim>\<open>return email.trim().toLowerCase();\<close>\<close>

definition normalizeEmail :: "string \<Rightarrow> string" where
  "normalizeEmail email = toLowerCase (trim email)"

text \<open>The regular expression \<^verbatim>\<open>\D\<close> (no unicode flag) matches every code unit but 0-9.\<close>

definition isDigit :: "char \<Rightarrow> bool" where
  "isDigit c = (48 \<le> (of_char c :: nat) \<and> (of_char c :: nat) \<le> 57)"

text \<open>\<^verbatim>\<open>return phone.replace(/\D/g, '');\<close>\<close>

definition normalizePhone :: "string \<Rightarrow> string" where
  "normalizePhone phone = filter isDigit phone"

section \<open>SHA-256 (crypto.createHash('sha256'), FIPS 180-4)\<close>

type_synonym u8 = "8 word"
type_synonym u32 = "32 word"

definition rotr :: "nat \<Rightarrow> u32 \<Rightarrow> u32" where
  "rotr n w = (drop_bit n w) OR (push_bit (32 - n) w)"

definition Ch :: "u32 \<Rightarrow> u32 \<Rightarrow> u32 \<Rightarrow> u32" where
  "Ch x y z = (x AND y) XOR (NOT x AND z)"

definition Maj :: "u32 \<Rightarrow> u32 \<Rightarrow> u32 \<Rightarrow> u32" where
  "Maj x y z = (x AND y) XOR (x AND z) XOR (y AND z)"

definition bsig0 :: "u32 \<Rightarrow> u32" where
  "bsig0 x = rotr 2 x XOR rotr 13 x XOR rotr 22 x"

definition bsig1 :: "u32 \<Rightarrow> u32" where
  "bsig1 x = rotr 6 x XOR rotr 11 x XOR rotr 25 x"

definition ssig0 :: "u32 \<Rightarrow> u32" where
  "ssig0 x = rotr 7 x XOR rotr 18 x XOR drop_bit 3 x"

definition ssig1 :: "u32 \<Rightarrow> u32" where
  "ssig1 x = rotr 17 x XOR rotr 19 x XOR drop_bit 10 x"

definition K256 :: "u32 list" where
  "K256 =
   [0x428A2F98, 0x71374491, 0xB5C0FBCF, 0xE9B5DBA5, 0x3956C25B, 0x59F111F1, 0x923F82A4, 0xAB1C5ED5,
    0xD807AA98, 0x12835B01, 0x243185BE, 0x550C7DC3, 0x72BE5D74, 0x80DEB1FE, 0x9BDC06A7, 0xC19BF174,
    0xE49B69C1, 0xEFBE4786, 0x0FC19DC6, 0x240CA1CC, 0x2DE92C6F, 0x4A7484AA, 0x5CB0A9DC, 0x76F988DA,
    0x983E5152, 0xA831C66D, 0xB00327C8, 0xBF597FC7, 0xC6E00BF3, 0xD5A79147, 0x06CA6351, 0x14292967,
    0x27B70A85, 0x2E1B2138, 0x4D2C6DFC, 0x53380D13, 0x650A7354, 0x766A0ABB, 0x81C2C92E, 0x92722C85,
    0xA2BFE8A1, 0xA81A664B, 0xC24B8B70, 0xC76C51A3, 0xD192E819, 0xD6990624, 0xF40E3585, 0x106AA070,
    0x19A4C116, 0x1E376C08, 0x2748774C, 0x34B0BCB5, 0x391C0CB3, 0x4ED8AA4A, 0x5B9CCA4F, 0x682E6FF3,
    0x748F82EE, 0x78A5636F, 0x84C87814, 0x8CC70208, 0x90BEFFFA, 0xA4506CEB, 0xBEF9A3F7, 0xC67178F2]"

definition H256 :: "u32 list" where
  "H256 = [0x6A09E667, 0xBB67AE85, 0x3C6EF372, 0xA54FF53A,
           0x510E527F, 0x9B05688C, 0x1F83D9AB, 0x5BE0CD19]"

text \<open>
  \<^verbatim>\<open>update(input)\<close> hashes the UTF-8 encoding of the string: one byte for a code
  unit below 128, two bytes for a code unit from 128 to 255.
\<close>

definition utf8 :: "char \<Rightarrow> u8 list" where
  "utf8 c = (let n = (of_char c :: u8)
             in if n < 128 then [n] else [0xC0 OR drop_bit 6 n, 0x80 OR (n AND 0x3F)])"

definition be_bytes64 :: "64 word \<Rightarrow> u8 list" where
  "be_bytes64 n = map (\<lambda>i. ucast (drop_bit (8 * i) n)) (rev [0..<8])"

definition pad :: "u8 list \<Rightarrow> u8 list" where
  "pad bs = bs @ [0x80] @ replicate ((119 - length bs mod 64) mod 64) 0
               @ be_bytes64 (8 * of_nat (length bs))"

fun be_words :: "u8 list \<Rightarrow> u32 list" where
  "be_words (a # b # c # d # bs) =
     (push_bit 24 (ucast a) OR push_bit 16 (ucast b) OR push_bit 8 (ucast c) OR ucast d)
       # be_words bs"
| "be_words _ = []"

text \<open>The message schedule, most recent word first.\<close>

fun schedule :: "nat \<Rightarrow> u32 list \<Rightarrow> u32 list" where
  "schedule 0 ws = ws"
| "schedule (Suc n) ws =
     schedule n ((ssig1 (ws ! 1) + ws ! 6 + ssig0 (ws ! 14) + ws ! 15) # ws)"

fun round256 :: "u32 list \<Rightarrow> u32 \<times> u32 \<Rightarrow> u32 list" where
  "round256 [a, b, c, d, e, f, g, h] (k, w) =
     (let t1 = h + bsig1 e + Ch e f g + k + w;
          t2 = bsig0 a + Maj a b c
      in [t1 + t2, a, b, c, d + t1, e, f, g])"
| "round256 s _ = s"

definition compress :: "u32 list \<Rightarrow> u32 list \<Rightarrow> u32 list" where
  "compress hs blk =
     map2 (+) hs (foldl round256 hs (zip K256 (rev (schedule 48 (rev blk)))))"

fun blocks :: "nat \<Rightarrow> 'a list \<Rightarrow> 'a list list" where
  "blocks n [] = []"
| "blocks n xs = (if n = 0 then [] else take n xs # blocks n (drop n xs))"

definition sha256 :: "u8 list \<Rightarrow> u32 list" where
  "sha256 bs = foldl compress H256 (blocks 16 (be_words (pad bs)))"

text \<open>\<^verbatim>\<open>digest('hex')\<close>: two lower-case hexadecimal digits per byte.\<close>

definition hexDigit :: "nat \<Rightarrow> char" where
  "hexDigit n = ''0123456789abcdef'' ! n"

definition hexWord :: "u32 \<Rightarrow> string" where
  "hexWord w = map (\<lambda>i. hexDigit (unat (drop_bit (4 * i) w AND 15))) (rev [0..<8])"


text \<open>\<^verbatim>\<open>return crypto.createHash('sha256').update(input).digest('hex');\<close>\<close>

definition hashString :: "string \<Rightarrow> string" where
  "hashString input = concat (map hexWord (sha256 (concat (map utf8 input))))"

definition hashEmail :: "string \<Rightarrow> string" where
  "hashEmail email = (let normalized = normalizeEmail email in hashString normalized)"

definition hashPhone :: "string \<Rightarrow> string" where
  "hashPhone phone = (let normalized = normalizePhone phone in hashString normalized)"

section \<open>One-time codes (utils/auth.ts)\<close>

definition digitChar :: "nat \<Rightarrow> char" where
  "digitChar d = ''0123456789'' ! d"

text \<open>\<^verbatim>\<open>Number.prototype.toString\<close> on a non-negative integer.\<close>

function toString :: "nat \<Rightarrow> string" where
  "toString n = (if n < 10 then [digitChar n] else toString (n div 10) @ [digitChar (n mod 10)])"
  by pat_completeness auto
termination
  by (relation "measure id") auto

declare toString.simps [simp del]

text \<open>
  \<^verbatim>\<open>String.prototype.padStart(targetLength, padString)\<close>: a string that is long
  enough, or an empty pad string, leaves the string as it is; otherwise the pad string is
  repeated and cut to the missing length.
\<close>

definition padStart :: "nat \<Rightarrow> string \<Rightarrow> string \<Rightarrow> string" where
  "padStart targetLength padString s =
     (if targetLength \<le> length s \<or> padString = [] then s
      else take (targetLength - length s)
             (concat (replicate (targetLength - length s) padString)) @ s)"

text \<open>
  \<^verbatim>\<open>
  const code = crypto.randomInt(0, 1000000);
  return code.toString().padStart(6, '0');
  \<close>
  The argument is the integer that \<^verbatim>\<open>crypto.randomInt(0, 1000000)\<close> returned; the
  library promises \<open>0 \<le> code < 1000000\<close>.
\<close>

definition generateOTP :: "nat \<Rightarrow> string" where
  "generateOTP code = padStart 6 ''0'' (toString code)"

text \<open>The number that a string of decimal digits denotes.\<close>

definition decimalValue :: "string \<Rightarrow> nat" where
  "decimalValue s = foldl (\<lambda>a c. 10 * a + (of_char c - 48)) 0 s"



section \<open>Expiry (utils/auth.ts)\<close>

text \<open>
  A \<^verbatim>\<open>Date\<close> is its number of milliseconds since the epoch. \<^verbatim>\<open>getMinutes\<close> and
  \<^verbatim>\<open>setMinutes\<close> work in local time; the local zone is taken to keep one offset
  \<open>tz\<close> (in minutes) over the interval, so that setting the minutes field moves the
  time value by the difference of the fields.
\<close>

definition getMinutes :: "int \<Rightarrow> int \<Rightarrow> int" where
  "getMinutes tz t = (t div 60000 + tz) mod 60"

definition setMinutes :: "int \<Rightarrow> int \<Rightarrow> int \<Rightarrow> int" where
  "setMinutes tz t m = t + (m - getMinutes tz t) * 60000"

text \<open>
  \<^verbatim>\<open>
  const expiry = new Date();
  expiry.setMinutes(expiry.getMinutes() + minutes);
  return expiry;
  \<close>
  \<open>now\<close> is the value of \<^verbatim>\<open>new Date()\<close>.
\<close>

definition getOTPExpiry :: "int \<Rightarrow> int \<Rightarrow> int \<Rightarrow> int" where
  "getOTPExpiry tz now minutes =
     (let expiry = now in setMinutes tz expiry (getMinutes tz expiry + minutes))"

text \<open>\<^verbatim>\<open>return new Date() < expiresAt;\<close>\<close>

definition isOTPValid :: "int \<Rightarrow> int \<Rightarrow> bool" where
  "isOTPValid now expiresAt = (now < expiresAt)"

section \<open>The tables users and login_codes (migration.sql) and the Prisma calls on them\<close>

record user =
  u_id :: string
  u_emailHash :: string
  u_phoneHash :: string
  u_createdAt :: int

record login_code =
  lc_id :: string
  lc_userId :: string
  lc_code :: string
  lc_expiresAt :: int
  lc_consumed :: bool
  lc_createdAt :: int

record store =
  users :: "user list"
  loginCodes :: "login_code list"

datatype db_error =
    UniqueViolation | ForeignKeyViolation | ValueTooLong | RecordNotFound | ValidationError

text \<open>\<^verbatim>\<open>prisma.user.findUnique({ where: { emailHash } })\<close>\<close>

definition user_findUnique :: "store \<Rightarrow> string \<Rightarrow> user option" where
  "user_findUnique db emailHash = find (\<lambda>u. u_emailHash u = emailHash) (users db)"

text \<open>
  \<^verbatim>\<open>prisma.user.create({ data: { emailHash, phoneHash } })\<close>. The row gets the
  generated \<open>newId\<close> and the default \<open>createdAt\<close>; the insert is refused by
  \<^verbatim>\<open>users_pkey\<close>, by the unique index \<^verbatim>\<open>users_emailHash_key\<close> and by
  \<^verbatim>\<open>VARCHAR(64)\<close>.
\<close>

definition user_create ::
  "store \<Rightarrow> string \<Rightarrow> int \<Rightarrow> string \<Rightarrow> string \<Rightarrow> db_error + user \<times> store" where
  "user_create db newId createdAt emailHash phoneHash =
     (if newId \<in> set (map u_id (users db)) then Inl UniqueViolation
      else if emailHash \<in> set (map u_emailHash (users db)) then Inl UniqueViolation
      else if 64 < length emailHash \<or> 64 < length phoneHash then Inl ValueTooLong
      else let u = \<lparr>u_id = newId, u_emailHash = emailHash, u_phoneHash = phoneHash,
                     u_createdAt = createdAt\<rparr>
           in Inr (u, db\<lparr>users := users db @ [u]\<rparr>))"

text \<open>
  \<^verbatim>\<open>prisma.loginCode.create({ data: { userId, code, expiresAt } })\<close>: \<open>consumed\<close>
  defaults to false; the insert is refused by \<^verbatim>\<open>login_codes_pkey\<close>, by the foreign
  key \<^verbatim>\<open>login_codes_userId_fkey\<close> and by \<^verbatim>\<open>VARCHAR(6)\<close>.
\<close>

definition loginCode_create ::
  "store \<Rightarrow> string \<Rightarrow> int \<Rightarrow> string \<Rightarrow> string \<Rightarrow> int \<Rightarrow> db_error + login_code \<times> store" where
  "loginCode_create db newId createdAt userId code expiresAt =
     (if newId \<in> set (map lc_id (loginCodes db)) then Inl UniqueViolation
      else if userId \<notin> set (map u_id (users db)) then Inl ForeignKeyViolation
      else if 6 < length code then Inl ValueTooLong
      else let l = \<lparr>lc_id = newId, lc_userId = userId, lc_code = code,
                     lc_expiresAt = expiresAt, lc_consumed = False, lc_createdAt = createdAt\<rparr>
           in Inr (l, db\<lparr>loginCodes := loginCodes db @ [l]\<rparr>))"

text \<open>
  \<^verbatim>\<open>
  prisma.loginCode.findFirst({
    where: { userId, code, consumed: false },
    orderBy: { createdAt: 'desc' },
  })
  \<close>
  The rows that match, those of them with the greatest \<open>createdAt\<close>, and the row the
  database returns: among rows with the same greatest \<open>createdAt\<close> the order is the
  database's choice, given here by the number \<open>tie\<close>.
\<close>

definition matching :: "store \<Rightarrow> string \<Rightarrow> string \<Rightarrow> login_code list" where
  "matching db userId code =
     filter (\<lambda>l. lc_userId l = userId \<and> lc_code l = code \<and> \<not> lc_consumed l) (loginCodes db)"

definition latest :: "login_code list \<Rightarrow> login_code list" where
  "latest ls = filter (\<lambda>l. list_all (\<lambda>m. lc_createdAt m \<le> lc_createdAt l) ls) ls"

definition loginCode_findFirst :: "nat \<Rightarrow> store \<Rightarrow> string \<Rightarrow> string \<Rightarrow> login_code option" where
  "loginCode_findFirst tie db userId code =
     (let rows = latest (matching db userId code)
      in if rows = [] then None else Some (rows ! (tie mod length rows)))"

text \<open>
  \<^verbatim>\<open>prisma.loginCode.update({ where: { id: loginCode.id }, data: { consumed: true } })\<close>;
  Prisma throws when no row has the id.
\<close>

definition setConsumed :: "string \<Rightarrow> login_code list \<Rightarrow> login_code list" where
  "setConsumed i ls = map (\<lambda>l. if lc_id l = i then l\<lparr>lc_consumed := True\<rparr> else l) ls"

definition loginCode_update :: "store \<Rightarrow> string \<Rightarrow> db_error + store" where
  "loginCode_update db i =
     (if i \<in> set (map lc_id (loginCodes db))
      then Inr (db\<lparr>loginCodes := setConsumed i (loginCodes db)\<rparr>)
      else Inl RecordNotFound)"

text \<open>
  The constraints of the migration on the two tables: the primary keys, the unique
  index on \<open>emailHash\<close> and the foreign key of \<open>login_codes\<close>.
\<close>

definition wellFormed :: "store \<Rightarrow> bool" where
  "wellFormed db =
     (distinct (map u_id (users db)) \<and> distinct (map u_emailHash (users db))
      \<and> distinct (map lc_id (loginCodes db))
      \<and> list_all (\<lambda>l. lc_userId l \<in> set (map u_id (users db))) (loginCodes db))"

section \<open>Requests and responses (routes/auth.ts)\<close>

text \<open>
  \<^verbatim>\<open>req.body\<close> is the object that \<^verbatim>\<open>express.json()\<close> parsed. A field of
  it is absent (\<open>undefined\<close>), \<open>null\<close>, a boolean, a number or a string. Numbers
  are modelled by integers; the handlers only test them for truthiness. Arrays and
  objects as field values are outside the model.
\<close>

datatype jsval = JUndefined | JNull | JBool bool | JNum int | JStr string

type_synonym body = "string \<rightharpoonup> jsval"

text \<open>\<^verbatim>\<open>const { email, phone } = req.body;\<close>\<close>

definition field :: "body \<Rightarrow> string \<Rightarrow> jsval" where
  "field b k = (case b k of None \<Rightarrow> JUndefined | Some v \<Rightarrow> v)"

text \<open>The values for which \<^verbatim>\<open>!v\<close> is false.\<close>

fun truthy :: "jsval \<Rightarrow> bool" where
  "truthy JUndefined = False"
| "truthy JNull = False"
| "truthy (JBool b) = b"
| "truthy (JNum n) = (n \<noteq> 0)"
| "truthy (JStr s) = (s \<noteq> [])"

datatype exn = TypeError | PrismaError db_error

text \<open>
  A call \<^verbatim>\<open>f(v)\<close> of \<^verbatim>\<open>hashEmail\<close> or \<^verbatim>\<open>hashPhone\<close> on a body value:
  \<^verbatim>\<open>trim\<close> and \<^verbatim>\<open>replace\<close> are methods of strings only, and calling them on a
  number or a boolean throws a \<^verbatim>\<open>TypeError\<close>.
\<close>

definition callOnString :: "(string \<Rightarrow> string) \<Rightarrow> jsval \<Rightarrow> exn + string" where
  "callOnString f v = (case v of JStr s \<Rightarrow> Inr (f s) | _ \<Rightarrow> Inl TypeError)"

text \<open>
  A filter value of a \<^verbatim>\<open>where\<close> clause on a string column: Prisma's client refuses
  a number or a boolean with a validation error.
\<close>

definition stringArg :: "jsval \<Rightarrow> exn + string" where
  "stringArg v = (case v of JStr s \<Rightarrow> Inr s | _ \<Rightarrow> Inl (PrismaError ValidationError))"

datatype response =
    Created string string
  | LoginOk string string
  | VerifyOk string
  | BadRequest string
  | Unauthorized string
  | NotFound string
  | Conflict string
  | InternalError

text \<open>The HTTP status of a response.\<close>

fun status :: "response \<Rightarrow> nat" where
  "status (Created _ _) = 201"
| "status (LoginOk _ _) = 200"
| "status (VerifyOk _) = 200"
| "status (BadRequest _) = 400"
| "status (Unauthorized _) = 401"
| "status (NotFound _) = 404"
| "status (Conflict _) = 409"
| "status InternalError = 500"

text \<open>
  What a handler reads from outside the store while it runs: the clock, the time
  zone, the random integer of \<^verbatim>\<open>crypto.randomInt(0, 1000000)\<close>, the ids and
  \<open>createdAt\<close> defaults of the rows it inserts, and the database's choice among rows
  that tie in \<^verbatim>\<open>findFirst\<close>.
\<close>

record env =
  clock :: int
  tzOffset :: int
  randomInt :: nat
  newUserId :: string
  userCreatedAt :: int
  newCodeId :: string
  codeCreatedAt :: int
  tieBreak :: nat

text \<open>
  \<^verbatim>\<open>router.post('/signup', ...)\<close>. Every exception is caught by the handler's
  \<^verbatim>\<open>catch\<close> and answered with status 500; the store keeps what was written before.
\<close>

definition signup :: "env \<Rightarrow> store \<Rightarrow> body \<Rightarrow> response \<times> store" where
  "signup e db b =
     (let email = field b ''email''; phone = field b ''phone'' in
      if \<not> truthy email \<or> \<not> truthy phone
      then (BadRequest ''Email and phone are required'', db)
      else case callOnString hashEmail email of
        Inl _ \<Rightarrow> (InternalError, db)
      | Inr emailHash \<Rightarrow>
      (case callOnString hashPhone phone of
        Inl _ \<Rightarrow> (InternalError, db)
      | Inr phoneHash \<Rightarrow>
      (case user_findUnique db emailHash of
        Some existingUser \<Rightarrow> (Conflict ''Account with this email already exists'', db)
      | None \<Rightarrow>
      (case user_create db (newUserId e) (userCreatedAt e) emailHash phoneHash of
        Inl _ \<Rightarrow> (InternalError, db)
      | Inr (user, db1) \<Rightarrow>
          let code = generateOTP (randomInt e);
              expiresAt = getOTPExpiry (tzOffset e) (clock e) 5
          in (case loginCode_create db1 (newCodeId e) (codeCreatedAt e) (u_id user) code expiresAt of
                Inl _ \<Rightarrow> (InternalError, db1)
              | Inr (_, db2) \<Rightarrow> (Created (u_id user) code, db2))))))"

text \<open>\<^verbatim>\<open>router.post('/login', ...)\<close>\<close>

definition login :: "env \<Rightarrow> store \<Rightarrow> body \<Rightarrow> response \<times> store" where
  "login e db b =
     (let email = field b ''email'' in
      if \<not> truthy email
      then (BadRequest ''Email is required'', db)
      else case callOnString hashEmail email of
        Inl _ \<Rightarrow> (InternalError, db)
      | Inr emailHash \<Rightarrow>
      (case user_findUnique db emailHash of
        None \<Rightarrow> (NotFound ''No account found with this email'', db)
      | Some user \<Rightarrow>
          let code = generateOTP (randomInt e);
              expiresAt = getOTPExpiry (tzOffset e) (clock e) 5
          in (case loginCode_create db (newCodeId e) (codeCreatedAt e) (u_id user) code expiresAt of
                Inl _ \<Rightarrow> (InternalError, db)
              | Inr (_, db1) \<Rightarrow> (LoginOk (u_id user) code, db1))))"

text \<open>\<^verbatim>\<open>router.post('/verify', ...)\<close>; a successful response sets the cookie \<open>userId\<close>.\<close>

definition verify :: "env \<Rightarrow> store \<Rightarrow> body \<Rightarrow> response \<times> store" where
  "verify e db b =
     (let userId = field b ''userId''; code = field b ''code'' in
      if \<not> truthy userId \<or> \<not> truthy code
      then (BadRequest ''User ID and code are required'', db)
      else case stringArg userId of
        Inl _ \<Rightarrow> (InternalError, db)
      | Inr uid \<Rightarrow>
      (case stringArg code of
        Inl _ \<Rightarrow> (InternalError, db)
      | Inr c \<Rightarrow>
      (case loginCode_findFirst (tieBreak e) db uid c of
        None \<Rightarrow> (Unauthorized ''Invalid or expired code'', db)
      | Some loginCode \<Rightarrow>
          if \<not> isOTPValid (clock e) (lc_expiresAt loginCode)
          then (Unauthorized ''Code has expired. Please request a new one.'', db)
          else (case loginCode_update db (lc_id loginCode) of
                  Inl _ \<Rightarrow> (InternalError, db)
                | Inr db1 \<Rightarrow> (VerifyOk uid, db1)))))"

section \<open>Requests in flight\<close>

text \<open>
  Node runs one handler until its next \<^verbatim>\<open>await\<close>; each awaited Prisma call is one
  statement, which the database executes atomically. A request in flight is therefore
  at one of the points below, and one step of it runs one Prisma call on the store
  together with the handler's code up to the next call. Requests that are handled at
  the same time interleave their steps.
\<close>

datatype request = Signup body | Login body | Verify body

datatype task =
    Pending request
  | SignupCreateUser string string
  | SignupCreateCode string string int
  | LoginCreateCode string string int
  | VerifyUpdate string string
  | Done response

fun step :: "env \<Rightarrow> task \<Rightarrow> store \<Rightarrow> task \<times> store" where
  "step e (Pending (Signup b)) db =
     (let email = field b ''email''; phone = field b ''phone'' in
      if \<not> truthy email \<or> \<not> truthy phone
      then (Done (BadRequest ''Email and phone are required''), db)
      else case callOnString hashEmail email of
        Inl _ \<Rightarrow> (Done InternalError, db)
      | Inr emailHash \<Rightarrow>
      (case callOnString hashPhone phone of
        Inl _ \<Rightarrow> (Done InternalError, db)
      | Inr phoneHash \<Rightarrow>
      (case user_findUnique db emailHash of
        Some existingUser \<Rightarrow> (Done (Conflict ''Account with this email already exists''), db)
      | None \<Rightarrow> (SignupCreateUser emailHash phoneHash, db))))"
| "step e (SignupCreateUser emailHash phoneHash) db =
     (case user_create db (newUserId e) (userCreatedAt e) emailHash phoneHash of
        Inl _ \<Rightarrow> (Done InternalError, db)
      | Inr (user, db1) \<Rightarrow>
          (SignupCreateCode (u_id user) (generateOTP (randomInt e))
             (getOTPExpiry (tzOffset e) (clock e) 5), db1))"
| "step e (SignupCreateCode userId code expiresAt) db =
     (case loginCode_create db (newCodeId e) (codeCreatedAt e) userId code expiresAt of
        Inl _ \<Rightarrow> (Done InternalError, db)
      | Inr (_, db1) \<Rightarrow> (Done (Created userId code), db1))"
| "step e (Pending (Login b)) db =
     (let email = field b ''email'' in
      if \<not> truthy email
      then (Done (BadRequest ''Email is required''), db)
      else case callOnString hashEmail email of
        Inl _ \<Rightarrow> (Done InternalError, db)
      | Inr emailHash \<Rightarrow>
      (case user_findUnique db emailHash of
        None \<Rightarrow> (Done (NotFound ''No account found with this email''), db)
      | Some user \<Rightarrow>
          (LoginCreateCode (u_id user) (generateOTP (randomInt e))
             (getOTPExpiry (tzOffset e) (clock e) 5), db)))"
| "step e (LoginCreateCode userId code expiresAt) db =
     (case loginCode_create db (newCodeId e) (codeCreatedAt e) userId code expiresAt of
        Inl _ \<Rightarrow> (Done InternalError, db)
      | Inr (_, db1) \<Rightarrow> (Done (LoginOk userId code), db1))"
| "step e (Pending (Verify b)) db =
     (let userId = field b ''userId''; code = field b ''code'' in
      if \<not> truthy userId \<or> \<not> truthy code
      then (Done (BadRequest ''User ID and code are required''), db)
      else case stringArg userId of
        Inl _ \<Rightarrow> (Done InternalError, db)
      | Inr uid \<Rightarrow>
      (case stringArg code of
        Inl _ \<Rightarrow> (Done InternalError, db)
      | Inr c \<Rightarrow>
      (case loginCode_findFirst (tieBreak e) db uid c of
        None \<Rightarrow> (Done (Unauthorized ''Invalid or expired code''), db)
      | Some loginCode \<Rightarrow>
          if \<not> isOTPValid (clock e) (lc_expiresAt loginCode)
          then (Done (Unauthorized ''Code has expired. Please request a new one.''), db)
          else (VerifyUpdate (lc_id loginCode) uid, db))))"
| "step e (VerifyUpdate i uid) db =
     (case loginCode_update db i of
        Inl _ \<Rightarrow> (Done InternalError, db)
      | Inr db1 \<Rightarrow> (Done (VerifyOk uid), db1))"
| "step e (Done r) db = (Done r, db)"

text \<open>A request handled alone: its steps one after the other (three are enough).\<close>

definition handle :: "env \<Rightarrow> request \<Rightarrow> store \<Rightarrow> task \<times> store" where
  "handle e r db =
     (case step e (Pending r) db of (t1, db1) \<Rightarrow>
        (case step e t1 db1 of (t2, db2) \<Rightarrow> step e t2 db2))"

text \<open>
  Requests handled at the same time: the store and, for each request, what it reads
  from outside and where it stands. A schedule names the request that takes the next
  step.
\<close>

type_synonym config = "store \<times> (env \<times> task) list"

fun exec :: "nat list \<Rightarrow> config \<Rightarrow> config" where
  "exec [] cfg = cfg"
| "exec (i # sched) (db, ts) =
     (if i < length ts
      then (case step (fst (ts ! i)) (snd (ts ! i)) db of
              (t, db1) \<Rightarrow> exec sched (db1, ts[i := (fst (ts ! i), t)]))
      else exec sched (db, ts))"

text \<open>The configurations the server can reach from the empty store.\<close>

inductive reachable :: "config \<Rightarrow> bool" where
  start: "reachable (\<lparr>users = [], loginCodes = []\<rparr>, [])"
| arrive: "reachable (db, ts) \<Longrightarrow> reachable (db, ts @ [(e, Pending r)])"
| run: "reachable (db, ts) \<Longrightarrow> i < length ts \<Longrightarrow>
        step (fst (ts ! i)) (snd (ts ! i)) db = (t, db1) \<Longrightarrow>
        reachable (db1, ts[i := (fst (ts ! i), t)])"

section \<open>Example data\<close>

text \<open>
  The scenario of the specification: a user signs up at time 1000 with the email
  \<open>A@Test.com\<close> and the phone \<open>(555) 123-4567\<close>, and logs in at time 61000; both
  times \<^verbatim>\<open>crypto.randomInt\<close> returns 123456.
\<close>

abbreviation emptyStore :: store where
  "emptyStore \<equiv> \<lparr>users = [], loginCodes = []\<rparr>"

abbreviation user1 :: user where
  "user1 \<equiv> \<lparr>u_id = ''u1'', u_emailHash = hashString ''a@test.com'',
      u_phoneHash = hashString ''5551234567'', u_createdAt = 1000\<rparr>"

abbreviation code1 :: login_code where
  "code1 \<equiv> \<lparr>lc_id = ''c1'', lc_userId = ''u1'', lc_code = ''123456'',
      lc_expiresAt = 301000, lc_consumed = False, lc_createdAt = 1000\<rparr>"

abbreviation code2 :: login_code where
  "code2 \<equiv> \<lparr>lc_id = ''c2'', lc_userId = ''u1'', lc_code = ''123456'',
      lc_expiresAt = 361000, lc_consumed = False, lc_createdAt = 61000\<rparr>"

abbreviation signupBody :: body where
  "signupBody \<equiv> [''email'' \<mapsto> JStr ''A@Test.com'', ''phone'' \<mapsto> JStr ''(555) 123-4567'']"


abbreviation verifyBody :: body where
  "verifyBody \<equiv> [''userId'' \<mapsto> JStr ''u1'', ''code'' \<mapsto> JStr ''123456'']"

text \<open>What the first and the second request read at time \<open>t\<close>.\<close>

abbreviation env1 :: "int \<Rightarrow> env" where
  "env1 t \<equiv> \<lparr>clock = t, tzOffset = 0, randomInt = 123456, newUserId = ''u1'',
      userCreatedAt = t, newCodeId = ''c1'', codeCreatedAt = t, tieBreak = 0\<rparr>"

abbreviation env2 :: "int \<Rightarrow> env" where
  "env2 t \<equiv> \<lparr>clock = t, tzOffset = 0, randomInt = 123456, newUserId = ''u2'',
      userCreatedAt = t, newCodeId = ''c2'', codeCreatedAt = t, tieBreak = 0\<rparr>"

section \<open>Lemmas on normalisation\<close>

























lemma normalizeEmail_inner_space: "normalizeEmail ''a b@x.com'' = ''a b@x.com''"
  by (simp add: normalizeEmail_def trim_def trimStart_def trimEnd_def toLowerCase_def
      toLowerChar_def isWhiteSpace_def)

section \<open>Lemmas on the digest\<close>

lemma length_round256: "length s = 8 \<Longrightarrow> length (round256 s kw) = 8"
proof -
  assume "length s = 8"
  then obtain a b c d e f g h where "s = [a, b, c, d, e, f, g, h]"
    by (auto simp: length_Suc_conv eval_nat_numeral)
  then show ?thesis by (cases kw) (simp add: Let_def)
qed

lemma length_foldl_round256: "length s = 8 \<Longrightarrow> length (foldl round256 s kws) = 8"
  by (induction kws arbitrary: s) (simp_all add: length_round256)

lemma length_compress: "length hs = 8 \<Longrightarrow> length (compress hs blk) = 8"
  by (simp add: compress_def length_foldl_round256)

lemma length_foldl_compress: "length hs = 8 \<Longrightarrow> length (foldl compress hs bs) = 8"
  by (induction bs arbitrary: hs) (simp_all add: length_compress)

lemma length_sha256: "length (sha256 bs) = 8"
  by (simp add: sha256_def length_foldl_compress H256_def)

lemma length_hexWord: "length (hexWord w) = 8"
  by (simp add: hexWord_def)




lemma length_concat_const:
  "\<forall>x\<in>set xs. length x = k \<Longrightarrow> length (concat xs) = k * length xs"
  by (induction xs) simp_all

lemma length_hashString: "length (hashString s) = 64"
proof -
  have "length (hashString s) = 8 * length (map hexWord (sha256 (concat (map utf8 s))))"
    unfolding hashString_def
    by (rule length_concat_const) (auto simp: length_hexWord)
  then show ?thesis by (simp add: length_sha256)
qed


section \<open>Lemmas on the one-time code\<close>

lemma replicate_numeral: "replicate (numeral k) x = x # replicate (pred_numeral k) x"
  by (simp add: numeral_eq_Suc)

lemma isDigit_digitChar: "d < 10 \<Longrightarrow> isDigit (digitChar d)"
proof -
  assume "d < 10"
  then have "d = 0 \<or> d = 1 \<or> d = 2 \<or> d = 3 \<or> d = 4 \<or> d = 5 \<or> d = 6 \<or> d = 7 \<or> d = 8 \<or> d = 9"
    by arith
  then show ?thesis
    by (elim disjE) (simp_all add: isDigit_def digitChar_def)
qed

lemma of_char_digitChar: "d < 10 \<Longrightarrow> of_char (digitChar d) = 48 + d"
proof -
  assume "d < 10"
  then have "d = 0 \<or> d = 1 \<or> d = 2 \<or> d = 3 \<or> d = 4 \<or> d = 5 \<or> d = 6 \<or> d = 7 \<or> d = 8 \<or> d = 9"
    by arith
  then show ?thesis
    by (elim disjE) (simp_all add: digitChar_def)
qed

lemma isDigit_toString: "c \<in> set (toString n) \<Longrightarrow> isDigit c"
proof (induction n rule: toString.induct)
  case (1 n)
  then show ?case
    by (subst (asm) (2) toString.simps) (auto simp: isDigit_digitChar split: if_splits)
qed

lemma length_toString: "0 < k \<Longrightarrow> n < 10 ^ k \<Longrightarrow> length (toString n) \<le> k"
proof (induction n arbitrary: k rule: toString.induct)
  case (1 n)
  show ?case
  proof (cases "n < 10")
    case True
    then show ?thesis using "1.prems" by (subst toString.simps) simp
  next
    case False
    with "1.prems" obtain j where k: "k = Suc j" and j: "0 < j"
      by (cases k; cases "k - 1") auto
    from "1.prems" k have "n div 10 < 10 ^ j"
      by (simp add: less_mult_imp_div_less mult.commute)
    with "1.IH" [OF False j] have "length (toString (n div 10)) \<le> j" .
    with False k show ?thesis by (subst toString.simps) simp
  qed
qed

lemma decimalValue_snoc: "decimalValue (s @ [c]) = 10 * decimalValue s + (of_char c - 48)"
  by (simp add: decimalValue_def)

lemma decimalValue_toString: "decimalValue (toString n) = n"
proof (induction n rule: toString.induct)
  case (1 n)
  show ?case
  proof (cases "n < 10")
    case True
    then show ?thesis
      by (subst toString.simps) (simp add: decimalValue_def of_char_digitChar)
  next
    case False
    with 1 show ?thesis
      by (subst toString.simps) (simp add: decimalValue_snoc of_char_digitChar)
  qed
qed

lemma decimalValue_zeros: "decimalValue (replicate m CHR ''0'' @ s) = decimalValue s"
proof -
  have "foldl (\<lambda>a c. 10 * a + (of_char c - 48)) 0 (replicate m CHR ''0'') = (0::nat)"
    by (induction m) simp_all
  then show ?thesis by (simp add: decimalValue_def)
qed

lemma padStart_zero:
  "padStart k ''0'' s = replicate (k - length s) CHR ''0'' @ s"
proof -
  have "concat (replicate m ''0'') = replicate m CHR ''0''" for m
    by (induction m) simp_all
  then show ?thesis by (simp add: padStart_def)
qed

lemma length_generateOTP: "code < 1000000 \<Longrightarrow> length (generateOTP code) = 6"
  using length_toString [of 6 code] by (simp add: generateOTP_def padStart_zero)

lemma isDigit_generateOTP: "list_all isDigit (generateOTP code)"
proof -
  have "isDigit CHR ''0''" by (simp add: isDigit_def)
  then show ?thesis
    by (auto simp: generateOTP_def padStart_zero isDigit_toString list_all_iff)
qed

lemma decimalValue_generateOTP: "decimalValue (generateOTP code) = code"
  by (simp add: generateOTP_def padStart_zero decimalValue_zeros decimalValue_toString)

section \<open>Lemmas on the handlers\<close>

lemma handle_signup: "handle e (Signup b) db = (Done (fst (signup e db b)), snd (signup e db b))"
  by (auto simp: handle_def signup_def Let_def split: sum.splits option.splits prod.splits)

lemma handle_login: "handle e (Login b) db = (Done (fst (login e db b)), snd (login e db b))"
  by (auto simp: handle_def login_def Let_def split: sum.splits option.splits prod.splits)

lemma handle_verify: "handle e (Verify b) db = (Done (fst (verify e db b)), snd (verify e db b))"
  by (auto simp: handle_def verify_def Let_def split: sum.splits option.splits prod.splits)

lemma getOTPExpiry_eq: "getOTPExpiry tz now minutes = now + minutes * 60000"
  by (simp add: getOTPExpiry_def setMinutes_def Let_def)

lemma latest_subset: "set (latest ls) \<subseteq> set ls"
  by (auto simp: latest_def)

lemma latest_max: "l \<in> set (latest ls) \<Longrightarrow> list_all (\<lambda>m. lc_createdAt m \<le> lc_createdAt l) ls"
  by (simp add: latest_def)

lemma latest_Nil_iff: "latest ls = [] \<longleftrightarrow> ls = []"
proof
  assume e: "latest ls = []"
  show "ls = []"
  proof (rule ccontr)
    assume ne: "ls \<noteq> []"
    let ?S = "lc_createdAt ` set ls"
    have fin: "finite ?S" and nonempty: "?S \<noteq> {}" using ne by auto
    from Max_in [OF fin nonempty] obtain l where l: "l \<in> set ls" "lc_createdAt l = Max ?S"
      by auto
    have "list_all (\<lambda>m. lc_createdAt m \<le> lc_createdAt l) ls"
      using l(2) Max_ge [OF fin] by (auto simp: list_all_iff)
    with l(1) have "l \<in> set (latest ls)" by (simp add: latest_def)
    with e show False by simp
  qed
next
  assume "ls = []"
  then show "latest ls = []" by (simp add: latest_def)
qed

lemma findFirst_None_iff: "loginCode_findFirst t db uid c = None \<longleftrightarrow> matching db uid c = []"
  by (simp add: loginCode_findFirst_def Let_def latest_Nil_iff)

lemma findFirst_Some:
  assumes "loginCode_findFirst t db uid c = Some lc"
  shows "lc \<in> set (matching db uid c)"
    and "list_all (\<lambda>m. lc_createdAt m \<le> lc_createdAt lc) (matching db uid c)"
proof -
  let ?rows = "latest (matching db uid c)"
  from assms have ne: "?rows \<noteq> []" and lc: "lc = ?rows ! (t mod length ?rows)"
    by (auto simp: loginCode_findFirst_def Let_def split: if_splits)
  from ne have "t mod length ?rows < length ?rows" by simp
  with lc have mem: "lc \<in> set ?rows" by (metis nth_mem)
  with latest_subset show "lc \<in> set (matching db uid c)" by blast
  from mem show "list_all (\<lambda>m. lc_createdAt m \<le> lc_createdAt lc) (matching db uid c)"
    by (rule latest_max)
qed

lemma findFirst_single: "matching db uid c = [lc] \<Longrightarrow> loginCode_findFirst t db uid c = Some lc"
  by (simp add: loginCode_findFirst_def latest_def Let_def)

lemma matching_iff:
  "l \<in> set (matching db uid c) \<longleftrightarrow>
     l \<in> set (loginCodes db) \<and> lc_userId l = uid \<and> lc_code l = c \<and> \<not> lc_consumed l"
  by (auto simp: matching_def)

lemma loginCode_update_eq:
  "i \<in> set (map lc_id (loginCodes db)) \<Longrightarrow>
     loginCode_update db i = Inr (db\<lparr>loginCodes := setConsumed i (loginCodes db)\<rparr>)"
  by (simp add: loginCode_update_def)

lemma setConsumed_distinct:
  assumes "distinct (map lc_id ls)" "lc \<in> set ls"
  shows "setConsumed (lc_id lc) ls = map (\<lambda>l. if l = lc then l\<lparr>lc_consumed := True\<rparr> else l) ls"
proof -
  have "lc_id l = lc_id lc \<longleftrightarrow> l = lc" if "l \<in> set ls" for l
    using assms that by (meson distinct_map inj_onD)
  then show ?thesis by (simp add: setConsumed_def)
qed

lemma matching_setConsumed:
  "matching (db\<lparr>loginCodes := setConsumed i (loginCodes db)\<rparr>) uid c
     = filter (\<lambda>l. lc_id l \<noteq> i) (matching db uid c)"
proof -
  have "filter (\<lambda>l. lc_userId l = uid \<and> lc_code l = c \<and> \<not> lc_consumed l) (setConsumed i ls)
      = filter (\<lambda>l. lc_id l \<noteq> i)
          (filter (\<lambda>l. lc_userId l = uid \<and> lc_code l = c \<and> \<not> lc_consumed l) ls)" for ls
    by (induction ls) (simp_all add: setConsumed_def)
  then show ?thesis by (simp add: matching_def)
qed

lemma map_lc_id_setConsumed: "map lc_id (setConsumed i ls) = map lc_id ls"
  by (induction ls) (simp_all add: setConsumed_def)

lemma verify_ok:
  assumes "field b ''userId'' = JStr uid" "uid \<noteq> []" "field b ''code'' = JStr c" "c \<noteq> []"
    and "loginCode_findFirst (tieBreak e) db uid c = Some lc"
    and "clock e < lc_expiresAt lc"
  shows "verify e db b = (VerifyOk uid, db\<lparr>loginCodes := setConsumed (lc_id lc) (loginCodes db)\<rparr>)"
proof -
  from findFirst_Some(1) [OF assms(5)] have "lc \<in> set (loginCodes db)"
    by (simp add: matching_iff)
  then have "lc_id lc \<in> set (map lc_id (loginCodes db))" by simp
  then show ?thesis
    using assms by (simp add: verify_def stringArg_def isOTPValid_def loginCode_update_eq)
qed

lemma verify_expired:
  assumes "field b ''userId'' = JStr uid" "uid \<noteq> []" "field b ''code'' = JStr c" "c \<noteq> []"
    and "loginCode_findFirst (tieBreak e) db uid c = Some lc"
    and "\<not> clock e < lc_expiresAt lc"
  shows "verify e db b = (Unauthorized ''Code has expired. Please request a new one.'', db)"
  using assms by (simp add: verify_def stringArg_def isOTPValid_def)

lemma verify_none:
  assumes "field b ''userId'' = JStr uid" "uid \<noteq> []" "field b ''code'' = JStr c" "c \<noteq> []"
    and "matching db uid c = []"
  shows "verify e db b = (Unauthorized ''Invalid or expired code'', db)"
  using assms findFirst_None_iff [of "tieBreak e" db uid c]
  by (simp add: verify_def stringArg_def)

lemma user_findUnique_None_iff:
  "user_findUnique db h = None \<longleftrightarrow> h \<notin> set (map u_emailHash (users db))"
  by (auto simp: user_findUnique_def find_None_iff)



lemma signup_created:
  assumes "field b ''email'' = JStr email" "email \<noteq> []"
    and "field b ''phone'' = JStr phone" "phone \<noteq> []"
    and "hashEmail email \<notin> set (map u_emailHash (users db))"
    and "newUserId e \<notin> set (map u_id (users db))"
    and "newCodeId e \<notin> set (map lc_id (loginCodes db))"
    and "randomInt e < 1000000"
  shows "signup e db b = (Created (newUserId e) (generateOTP (randomInt e)),
     db\<lparr>users := users db @ [\<lparr>u_id = newUserId e, u_emailHash = hashEmail email,
            u_phoneHash = hashPhone phone, u_createdAt = userCreatedAt e\<rparr>],
        loginCodes := loginCodes db @ [\<lparr>lc_id = newCodeId e, lc_userId = newUserId e,
            lc_code = generateOTP (randomInt e), lc_expiresAt = clock e + 300000,
            lc_consumed = False, lc_createdAt = codeCreatedAt e\<rparr>]\<rparr>)"
proof -
  have f: "user_findUnique db (hashEmail email) = None"
    using assms(5) by (simp add: user_findUnique_None_iff)
  have l: "length (hashEmail email) = 64" "length (hashPhone phone) = 64"
    by (simp_all add: hashEmail_def hashPhone_def length_hashString)
  have g: "length (generateOTP (randomInt e)) = 6"
    using assms(8) by (rule length_generateOTP)
  show ?thesis
    using assms(1-7) f l g
    by (simp add: signup_def callOnString_def user_create_def loginCode_create_def
        getOTPExpiry_eq Let_def)
qed



lemma hashEmail_examples:
  "hashEmail ''A@Test.com'' = hashString ''a@test.com''"
  "hashEmail ''a@test.com '' = hashString ''a@test.com''"
  "hashEmail ''  a@TEST.com'' = hashString ''a@test.com''"
  by (simp_all add: hashEmail_def normalizeEmail_def trim_def trimStart_def trimEnd_def
      toLowerCase_def toLowerChar_def isWhiteSpace_def char_of_def bit_Suc_0_iff)

lemma hashPhone_example: "hashPhone ''(555) 123-4567'' = hashString ''5551234567''"
  by (simp add: hashPhone_def normalizePhone_def isDigit_def)

lemma generateOTP_example: "generateOTP 123456 = ''123456''"
  by (simp add: generateOTP_def padStart_zero toString.simps digitChar_def)

lemma falsy_iff: "\<not> truthy v \<longleftrightarrow> v \<in> {JUndefined, JNull, JBool False, JNum 0, JStr []}"
  by (cases v) auto

lemma signup_badRequest:
  "\<not> truthy (field b ''email'') \<or> \<not> truthy (field b ''phone'') \<Longrightarrow>
     signup e db b = (BadRequest ''Email and phone are required'', db)"
  by (auto simp: signup_def Let_def)

lemma login_badRequest:
  "\<not> truthy (field b ''email'') \<Longrightarrow> login e db b = (BadRequest ''Email is required'', db)"
  by (simp add: login_def Let_def)

lemma verify_badRequest:
  "\<not> truthy (field b ''userId'') \<or> \<not> truthy (field b ''code'') \<Longrightarrow>
     verify e db b = (BadRequest ''User ID and code are required'', db)"
  by (auto simp: verify_def Let_def)

lemma signup_truthy_status:
  "truthy (field b ''email'') \<Longrightarrow> truthy (field b ''phone'') \<Longrightarrow>
     status (fst (signup e db b)) \<noteq> 400"
  by (simp add: signup_def Let_def split: sum.splits option.splits prod.splits)

lemma login_truthy_status:
  "truthy (field b ''email'') \<Longrightarrow> status (fst (login e db b)) \<noteq> 400"
  by (simp add: login_def Let_def split: sum.splits option.splits prod.splits)

lemma verify_truthy_status:
  "truthy (field b ''userId'') \<Longrightarrow> truthy (field b ''code'') \<Longrightarrow>
     status (fst (verify e db b)) \<noteq> 400"
  by (simp add: verify_def Let_def split: sum.splits option.splits prod.splits)

lemma hashString_empty:
  "hashString [] = ''e3b0c44298fc1c149afbf4c8996fb92427ae41e4649b934ca495991b7852b855''"
  by code_simp

lemma normalizePhone_digitless: "list_all (\<lambda>c. \<not> isDigit c) phone \<Longrightarrow> normalizePhone phone = []"
  by (simp add: normalizePhone_def list_all_iff)

lemma signup_Created_user:
  assumes "field b ''email'' = JStr email" "field b ''phone'' = JStr phone"
    and "signup e db b = (Created uid otp, db')"
  shows "users db' = users db @ [\<lparr>u_id = uid, u_emailHash = hashEmail email,
            u_phoneHash = hashPhone phone, u_createdAt = userCreatedAt e\<rparr>]"
  using assms
  by (auto simp: signup_def callOnString_def user_create_def loginCode_create_def Let_def
      split: if_splits option.splits)

lemma user_create_wellFormed:
  "wellFormed db \<Longrightarrow> user_create db i t eh ph = Inr (u, db1) \<Longrightarrow> wellFormed db1"
  by (auto simp: wellFormed_def user_create_def Let_def list_all_iff split: if_splits)

lemma loginCode_create_wellFormed:
  "wellFormed db \<Longrightarrow> loginCode_create db i t uid c x = Inr (l, db1) \<Longrightarrow> wellFormed db1"
  by (auto simp: wellFormed_def loginCode_create_def Let_def list_all_iff split: if_splits)

lemma lc_userId_setConsumed: "map lc_userId (setConsumed i ls) = map lc_userId ls"
  by (induction ls) (simp_all add: setConsumed_def)

lemma loginCode_update_wellFormed:
  assumes "wellFormed db" "loginCode_update db i = Inr db1"
  shows "wellFormed db1"
proof -
  from assms(2) have db1: "db1 = db\<lparr>loginCodes := setConsumed i (loginCodes db)\<rparr>"
    by (simp add: loginCode_update_def split: if_splits)
  have "list_all (\<lambda>l. lc_userId l \<in> S) (setConsumed i ls) = list_all (\<lambda>l. lc_userId l \<in> S) ls"
    for S ls
    by (induction ls) (simp_all add: setConsumed_def)
  with assms(1) show ?thesis
    by (simp add: db1 wellFormed_def map_lc_id_setConsumed)
qed

lemma step_wellFormed:
  assumes "wellFormed db" "step e t db = (t1, db1)"
  shows "wellFormed db1"
proof (cases t)
  case (Pending r)
  with assms show ?thesis
    by (cases r) (auto simp: Let_def split: if_splits sum.splits option.splits)
next
  case (SignupCreateUser eh ph)
  with assms show ?thesis
    by (auto split: sum.splits dest: user_create_wellFormed)
next
  case (SignupCreateCode uid c x)
  with assms show ?thesis
    by (auto split: sum.splits dest: loginCode_create_wellFormed)
next
  case (LoginCreateCode uid c x)
  with assms show ?thesis
    by (auto split: sum.splits dest: loginCode_create_wellFormed)
next
  case (VerifyUpdate i uid)
  with assms show ?thesis
    by (auto split: sum.splits dest: loginCode_update_wellFormed)
next
  case (Done r)
  with assms show ?thesis by simp
qed

lemma reachable_wellFormed: "reachable cfg \<Longrightarrow> wellFormed (fst cfg)"
proof (induction rule: reachable.induct)
  case start
  show ?case by (simp add: wellFormed_def)
next
  case (arrive db ts e r)
  then show ?case by simp
next
  case (run db ts i t db1)
  then show ?case using step_wellFormed by auto
qed

lemma reachable_exec: "reachable cfg \<Longrightarrow> reachable (exec sched cfg)"
proof (induction sched arbitrary: cfg)
  case Nil
  then show ?case by simp
next
  case (Cons i sched)
  obtain db ts where cfg: "cfg = (db, ts)" by (cases cfg)
  show ?case
  proof (cases "i < length ts")
    case True
    obtain t db1 where s: "step (fst (ts ! i)) (snd (ts ! i)) db = (t, db1)"
      by (cases "step (fst (ts ! i)) (snd (ts ! i)) db")
    from Cons.prems cfg True s have "reachable (db1, ts[i := (fst (ts ! i), t)])"
      by (auto intro: reachable.run)
    from Cons.IH [OF this] True s cfg show ?thesis by simp
  next
    case False
    with Cons cfg show ?thesis by simp
  qed
qed

lemma user_create_duplicate:
  "emailHash \<in> set (map u_emailHash (users db)) \<Longrightarrow>
     user_create db newId createdAt emailHash phoneHash = Inl UniqueViolation"
  by (simp add: user_create_def)

lemma user_create_distinct:
  "user_create db newId createdAt emailHash phoneHash = Inr (u, db1) \<Longrightarrow>
     distinct (map u_emailHash (users db)) \<Longrightarrow> distinct (map u_emailHash (users db1))"
  by (auto simp: user_create_def Let_def split: if_splits)

lemma setConsumed_idem: "setConsumed i (setConsumed i ls) = setConsumed i ls"
  by (induction ls) (simp_all add: setConsumed_def)

lemma step_verify_found:
  assumes "field b ''userId'' = JStr uid" "uid \<noteq> []" "field b ''code'' = JStr c" "c \<noteq> []"
    and "matching db uid c = [lc]" and "clock e < lc_expiresAt lc"
  shows "step e (Pending (Verify b)) db = (VerifyUpdate (lc_id lc) uid, db)"
  using assms findFirst_single [OF assms(5), of "tieBreak e"]
  by (simp add: stringArg_def isOTPValid_def)

lemma step_verify_none:
  assumes "field b ''userId'' = JStr uid" "uid \<noteq> []" "field b ''code'' = JStr c" "c \<noteq> []"
    and "matching db uid c = []"
  shows "step e (Pending (Verify b)) db = (Done (Unauthorized ''Invalid or expired code''), db)"
  using assms findFirst_None_iff [of "tieBreak e" db uid c]
  by (simp add: stringArg_def)

lemma step_verify_update:
  assumes "i \<in> set (map lc_id (loginCodes db))"
  shows "step e (VerifyUpdate i uid) db
     = (Done (VerifyOk uid), db\<lparr>loginCodes := setConsumed i (loginCodes db)\<rparr>)"
  using assms by (simp add: loginCode_update_eq)

lemma distinct_map_filter_le_1:
  "distinct (map f xs) \<Longrightarrow> length (filter (\<lambda>x. f x = h) xs) \<le> 1"
proof (induction xs)
  case Nil
  show ?case by simp
next
  case (Cons x xs)
  show ?case
  proof (cases "f x = h")
    case True
    with Cons.prems have "\<forall>y\<in>set xs. f y \<noteq> h"
      by (auto simp: image_iff)
    then have "filter (\<lambda>y. f y = h) xs = []"
      by (simp add: filter_empty_conv)
    with True show ?thesis by simp
  next
    case False
    with Cons show ?thesis by simp
  qed
qed

section \<open>The claims\<close>

subsection \<open>C1\<close>

text \<open>
  C1, as amended. When the login code that \<open>findFirst\<close> selects for (userId, code),
  a most recently created unconsumed one, has not expired, \<open>verify\<close> succeeds and sets
  \<open>consumed\<close> on exactly that row. The unconsumed rows matching (userId, code) are
  afterwards the former ones without it, and when it was the only one, a second
  \<open>verify\<close> with the same userId and code fails with status 401.
\<close>

theorem verify_once:
  assumes "field b ''userId'' = JStr uid" and "uid \<noteq> []"
    and "field b ''code'' = JStr c" and "c \<noteq> []"
    and "distinct (map lc_id (loginCodes db))"
    and "loginCode_findFirst (tieBreak e) db uid c = Some lc"
    and "clock e < lc_expiresAt lc"
  shows "lc \<in> set (loginCodes db) \<and> lc_userId lc = uid \<and> lc_code lc = c \<and> \<not> lc_consumed lc
     \<and> list_all (\<lambda>m. lc_createdAt m \<le> lc_createdAt lc) (matching db uid c)
     \<and> verify e db b = (VerifyOk uid,
          db\<lparr>loginCodes := map (\<lambda>l. if l = lc then l\<lparr>lc_consumed := True\<rparr> else l) (loginCodes db)\<rparr>)
     \<and> matching (snd (verify e db b)) uid c = removeAll lc (matching db uid c)
     \<and> (matching db uid c = [lc] \<longrightarrow>
          verify e' (snd (verify e db b)) b
            = (Unauthorized ''Invalid or expired code'', snd (verify e db b)))"
proof -
  note m = findFirst_Some [OF assms(6)]
  from m(1) have mem: "lc \<in> set (loginCodes db)" and props: "lc_userId lc = uid" "lc_code lc = c" "\<not> lc_consumed lc"
    by (simp_all add: matching_iff)
  have v: "verify e db b = (VerifyOk uid, db\<lparr>loginCodes := setConsumed (lc_id lc) (loginCodes db)\<rparr>)"
    by (rule verify_ok [OF assms(1-4) assms(6,7)])
  have c: "setConsumed (lc_id lc) (loginCodes db)
      = map (\<lambda>l. if l = lc then l\<lparr>lc_consumed := True\<rparr> else l) (loginCodes db)"
    by (rule setConsumed_distinct [OF assms(5) mem])
  have "lc_id l \<noteq> lc_id lc \<longleftrightarrow> l \<noteq> lc" if "l \<in> set (matching db uid c)" for l
    using assms(5) mem that by (metis distinct_map inj_onD matching_iff)
  then have f: "filter (\<lambda>l. lc_id l \<noteq> lc_id lc) (matching db uid c) = removeAll lc (matching db uid c)"
    by (auto simp: removeAll_filter_not_eq intro: filter_cong)
  have r: "matching (snd (verify e db b)) uid c = removeAll lc (matching db uid c)"
    by (simp add: v matching_setConsumed f)
  have "verify e' (snd (verify e db b)) b
      = (Unauthorized ''Invalid or expired code'', snd (verify e db b))"
    if "matching db uid c = [lc]"
    by (rule verify_none [OF assms(1-4)]) (simp add: r that)
  with mem props m(2) v c r show ?thesis by simp
qed

theorem verify_once_witness:
  "distinct (map lc_id [code1])
   \<and> loginCode_findFirst 0 \<lparr>users = [user1], loginCodes = [code1]\<rparr> ''u1'' ''123456'' = Some code1
   \<and> verify (env1 2000) \<lparr>users = [user1], loginCodes = [code1]\<rparr> verifyBody
       = (VerifyOk ''u1'', \<lparr>users = [user1], loginCodes = [code1\<lparr>lc_consumed := True\<rparr>]\<rparr>)
   \<and> verify (env1 3000) \<lparr>users = [user1], loginCodes = [code1\<lparr>lc_consumed := True\<rparr>]\<rparr> verifyBody
       = (Unauthorized ''Invalid or expired code'',
          \<lparr>users = [user1], loginCodes = [code1\<lparr>lc_consumed := True\<rparr>]\<rparr>)"
proof -
  let ?db = "\<lparr>users = [user1], loginCodes = [code1]\<rparr>"
  have f: "field verifyBody ''userId'' = JStr ''u1''" "field verifyBody ''code'' = JStr ''123456''"
    by (simp_all add: field_def)
  have d: "distinct (map lc_id (loginCodes ?db))" by simp
  have m: "matching ?db ''u1'' ''123456'' = [code1]" by (simp add: matching_def)
  have ff: "loginCode_findFirst (tieBreak (env1 2000)) ?db ''u1'' ''123456'' = Some code1"
    by (simp add: loginCode_findFirst_def latest_def m)
  have cl: "clock (env1 2000) < lc_expiresAt code1" by simp
  note t = verify_once [OF f(1) _ f(2) _ d ff cl, of "env1 3000"]
  from t have v1: "verify (env1 2000) ?db verifyBody
      = (VerifyOk ''u1'', \<lparr>users = [user1], loginCodes = [code1\<lparr>lc_consumed := True\<rparr>]\<rparr>)"
    by simp
  from t m have "verify (env1 3000) (snd (verify (env1 2000) ?db verifyBody)) verifyBody
      = (Unauthorized ''Invalid or expired code'', snd (verify (env1 2000) ?db verifyBody))"
    by blast
  then have v2: "verify (env1 3000)
        \<lparr>users = [user1], loginCodes = [code1\<lparr>lc_consumed := True\<rparr>]\<rparr> verifyBody
      = (Unauthorized ''Invalid or expired code'',
         \<lparr>users = [user1], loginCodes = [code1\<lparr>lc_consumed := True\<rparr>]\<rparr>)"
    unfolding v1 by simp
  from d ff v1 v2 show ?thesis by simp
qed

text \<open>
  C1 as stated fails when two unconsumed, unexpired login codes of one user carry the
  same six digits (signup at 1000 and login at 61000 both drew 123456): the second
  \<open>verify\<close> succeeds as well, on the older row.
\<close>

theorem verify_twice_counterexample:
  "verify (env1 62000) \<lparr>users = [user1], loginCodes = [code1, code2]\<rparr> verifyBody
     = (VerifyOk ''u1'', \<lparr>users = [user1], loginCodes = [code1, code2\<lparr>lc_consumed := True\<rparr>]\<rparr>)
   \<and> verify (env1 63000)
        \<lparr>users = [user1], loginCodes = [code1, code2\<lparr>lc_consumed := True\<rparr>]\<rparr> verifyBody
     = (VerifyOk ''u1'',
        \<lparr>users = [user1],
         loginCodes = [code1\<lparr>lc_consumed := True\<rparr>, code2\<lparr>lc_consumed := True\<rparr>]\<rparr>)"
  by (simp add: verify_def field_def stringArg_def loginCode_findFirst_def latest_def
      matching_def isOTPValid_def loginCode_update_def setConsumed_def)

subsection \<open>C2\<close>

text \<open>
  C2. When the login code that \<open>findFirst\<close> selects for (userId, code) has an expiry
  that is not after the current time, \<open>verify\<close> fails with status 401 and leaves the
  store as it was; the selected row is still there, unconsumed.
\<close>

theorem verify_expired_unchanged:
  assumes "field b ''userId'' = JStr uid" and "uid \<noteq> []"
    and "field b ''code'' = JStr c" and "c \<noteq> []"
    and "loginCode_findFirst (tieBreak e) db uid c = Some lc"
    and "lc_expiresAt lc \<le> clock e"
  shows "verify e db b = (Unauthorized ''Code has expired. Please request a new one.'', db)
     \<and> status (fst (verify e db b)) = 401
     \<and> lc \<in> set (loginCodes (snd (verify e db b))) \<and> \<not> lc_consumed lc"
proof -
  from assms(6) have "\<not> clock e < lc_expiresAt lc" by simp
  from verify_expired [OF assms(1-5) this] findFirst_Some(1) [OF assms(5)]
  show ?thesis by (simp add: matching_iff)
qed

theorem verify_expired_unchanged_witness:
  "loginCode_findFirst 0 \<lparr>users = [user1], loginCodes = [code1]\<rparr> ''u1'' ''123456'' = Some code1
   \<and> lc_expiresAt code1 \<le> 301000
   \<and> verify (env1 301000) \<lparr>users = [user1], loginCodes = [code1]\<rparr> verifyBody
       = (Unauthorized ''Code has expired. Please request a new one.'',
          \<lparr>users = [user1], loginCodes = [code1]\<rparr>)"
proof -
  let ?db = "\<lparr>users = [user1], loginCodes = [code1]\<rparr>"
  have f: "field verifyBody ''userId'' = JStr ''u1''" "field verifyBody ''code'' = JStr ''123456''"
    by (simp_all add: field_def)
  have ff: "loginCode_findFirst (tieBreak (env1 301000)) ?db ''u1'' ''123456'' = Some code1"
    by (simp add: loginCode_findFirst_def latest_def matching_def)
  have cl: "lc_expiresAt code1 \<le> clock (env1 301000)" by simp
  from verify_expired_unchanged [OF f(1) _ f(2) _ ff cl] ff
  show ?thesis by simp
qed

subsection \<open>C3\<close>

text \<open>
  C3, as amended. Two \<open>verify\<close> requests present the same code, the only unconsumed
  login code matching (userId, code), and neither sees it expired. Each request makes
  two storage calls, \<open>findFirst\<close> and an unconditional \<open>update\<close> by id, with no
  transaction around them. When one request makes both calls before the other makes
  its first, exactly one succeeds and the other answers 401; in the four other
  interleavings both lookups precede both updates and both requests succeed. In all
  six the row ends consumed and no request answers 500.
\<close>

theorem verify_race:
  assumes "field b1 ''userId'' = JStr uid" and "field b1 ''code'' = JStr c"
    and "field b2 ''userId'' = JStr uid" and "field b2 ''code'' = JStr c"
    and "uid \<noteq> []" and "c \<noteq> []"
    and "matching db uid c = [lc]"
    and "clock e1 < lc_expiresAt lc" and "clock e2 < lc_expiresAt lc"
  shows "exec [0, 0, 1, 1] (db, [(e1, Pending (Verify b1)), (e2, Pending (Verify b2))])
       = (db\<lparr>loginCodes := setConsumed (lc_id lc) (loginCodes db)\<rparr>,
          [(e1, Done (VerifyOk uid)), (e2, Done (Unauthorized ''Invalid or expired code''))])
     \<and> exec [1, 1, 0, 0] (db, [(e1, Pending (Verify b1)), (e2, Pending (Verify b2))])
       = (db\<lparr>loginCodes := setConsumed (lc_id lc) (loginCodes db)\<rparr>,
          [(e1, Done (Unauthorized ''Invalid or expired code'')), (e2, Done (VerifyOk uid))])
     \<and> exec [0, 1, 0, 1] (db, [(e1, Pending (Verify b1)), (e2, Pending (Verify b2))])
       = (db\<lparr>loginCodes := setConsumed (lc_id lc) (loginCodes db)\<rparr>,
          [(e1, Done (VerifyOk uid)), (e2, Done (VerifyOk uid))])
     \<and> exec [0, 1, 1, 0] (db, [(e1, Pending (Verify b1)), (e2, Pending (Verify b2))])
       = (db\<lparr>loginCodes := setConsumed (lc_id lc) (loginCodes db)\<rparr>,
          [(e1, Done (VerifyOk uid)), (e2, Done (VerifyOk uid))])
     \<and> exec [1, 0, 0, 1] (db, [(e1, Pending (Verify b1)), (e2, Pending (Verify b2))])
       = (db\<lparr>loginCodes := setConsumed (lc_id lc) (loginCodes db)\<rparr>,
          [(e1, Done (VerifyOk uid)), (e2, Done (VerifyOk uid))])
     \<and> exec [1, 0, 1, 0] (db, [(e1, Pending (Verify b1)), (e2, Pending (Verify b2))])
       = (db\<lparr>loginCodes := setConsumed (lc_id lc) (loginCodes db)\<rparr>,
          [(e1, Done (VerifyOk uid)), (e2, Done (VerifyOk uid))])"
proof -
  let ?db' = "db\<lparr>loginCodes := setConsumed (lc_id lc) (loginCodes db)\<rparr>"
  have "lc \<in> set (matching db uid c)" using assms(7) by simp
  then have mem: "lc_id lc \<in> set (map lc_id (loginCodes db))"
    by (simp add: matching_iff)
  then have mem': "lc_id lc \<in> set (map lc_id (loginCodes ?db'))"
    by (simp add: map_lc_id_setConsumed)
  have gone: "matching ?db' uid c = []"
    by (simp add: matching_setConsumed assms(7))
  have f1: "step e1 (Pending (Verify b1)) db = (VerifyUpdate (lc_id lc) uid, db)"
    by (rule step_verify_found [OF assms(1) assms(5) assms(2) assms(6) assms(7) assms(8)])
  have f2: "step e2 (Pending (Verify b2)) db = (VerifyUpdate (lc_id lc) uid, db)"
    by (rule step_verify_found [OF assms(3) assms(5) assms(4) assms(6) assms(7) assms(9)])
  have n1: "step e1 (Pending (Verify b1)) ?db'
      = (Done (Unauthorized ''Invalid or expired code''), ?db')"
    by (rule step_verify_none [OF assms(1) assms(5) assms(2) assms(6) gone])
  have n2: "step e2 (Pending (Verify b2)) ?db'
      = (Done (Unauthorized ''Invalid or expired code''), ?db')"
    by (rule step_verify_none [OF assms(3) assms(5) assms(4) assms(6) gone])
  have u: "step e (VerifyUpdate (lc_id lc) uid) db = (Done (VerifyOk uid), ?db')" for e
    by (rule step_verify_update [OF mem])
  have u': "step e (VerifyUpdate (lc_id lc) uid) ?db' = (Done (VerifyOk uid), ?db')" for e
    using step_verify_update [OF mem', of e uid] by (simp add: setConsumed_idem)
  have d: "step e (Done r) s = (Done r, s)" for e r s
    by simp
  show ?thesis
    by (simp add: f1 f2 n1 n2 u u' d del: step.simps)
qed

theorem verify_race_witness:
  "matching \<lparr>users = [user1], loginCodes = [code1]\<rparr> ''u1'' ''123456'' = [code1]
   \<and> exec [0, 0, 1, 1] (\<lparr>users = [user1], loginCodes = [code1]\<rparr>,
        [(env1 2000, Pending (Verify verifyBody)), (env2 2500, Pending (Verify verifyBody))])
     = (\<lparr>users = [user1], loginCodes = [code1\<lparr>lc_consumed := True\<rparr>]\<rparr>,
        [(env1 2000, Done (VerifyOk ''u1'')),
         (env2 2500, Done (Unauthorized ''Invalid or expired code''))])"
proof -
  let ?db = "\<lparr>users = [user1], loginCodes = [code1]\<rparr>"
  have f: "field verifyBody ''userId'' = JStr ''u1''" "field verifyBody ''code'' = JStr ''123456''"
    by (simp_all add: field_def)
  have m: "matching ?db ''u1'' ''123456'' = [code1]" by (simp add: matching_def)
  from verify_race [OF f f _ _ m, where ?e1.0 = "env1 2000" and ?e2.0 = "env2 2500"] m
  show ?thesis by (simp add: setConsumed_def)
qed

text \<open>
  C3 as stated fails: when both lookups run before either update, both requests
  succeed.
\<close>

theorem verify_race_counterexample:
  "exec [0, 1, 0, 1] (\<lparr>users = [user1], loginCodes = [code1]\<rparr>,
        [(env1 2000, Pending (Verify verifyBody)), (env2 2500, Pending (Verify verifyBody))])
     = (\<lparr>users = [user1], loginCodes = [code1\<lparr>lc_consumed := True\<rparr>]\<rparr>,
        [(env1 2000, Done (VerifyOk ''u1'')), (env2 2500, Done (VerifyOk ''u1''))])"
  by (simp add: field_def stringArg_def loginCode_findFirst_def latest_def matching_def
      isOTPValid_def loginCode_update_def setConsumed_def)

subsection \<open>C4\<close>



subsection \<open>C5\<close>

text \<open>
  C5. In every configuration the server can reach, under any interleaving of
  requests, no two users have the same \<open>emailHash\<close>: at most one user carries a given
  hash, in particular the hash of a given normalised email. The insert itself refuses
  an \<open>emailHash\<close> that is already stored (the unique index), whatever the handler
  checked before, and an insert that succeeds keeps the hashes distinct.
\<close>

theorem emailHash_unique:
  "(reachable (db, ts) \<longrightarrow>
        distinct (map u_emailHash (users db))
        \<and> length (filter (\<lambda>u. u_emailHash u = h) (users db)) \<le> 1
        \<and> length (filter (\<lambda>u. u_emailHash u = hashString (normalizeEmail email)) (users db)) \<le> 1)
   \<and> (emailHash \<in> set (map u_emailHash (users db0)) \<longrightarrow>
        user_create db0 newId createdAt emailHash phoneHash = Inl UniqueViolation)
   \<and> (user_create db0 newId createdAt emailHash phoneHash = Inr (u, db1)
        \<and> distinct (map u_emailHash (users db0)) \<longrightarrow>
        emailHash \<notin> set (map u_emailHash (users db0))
        \<and> distinct (map u_emailHash (users db1)))"
  using reachable_wellFormed [of "(db, ts)"]
    user_create_duplicate [of emailHash db0 newId createdAt phoneHash]
    user_create_distinct [of db0 newId createdAt emailHash phoneHash u db1]
    distinct_map_filter_le_1 [of u_emailHash "users db"]
  by (auto simp: wellFormed_def)

theorem emailHash_unique_witness:
  "exec [0, 1, 0, 1, 0, 1]
       (emptyStore, [(env1 1000, Pending (Signup signupBody)),
                     (env2 1000, Pending (Signup [''email'' \<mapsto> JStr ''a@test.com '',
                                                    ''phone'' \<mapsto> JStr ''5551234567'']))])
     = (\<lparr>users = [user1], loginCodes = [code1]\<rparr>,
        [(env1 1000, Done (Created ''u1'' ''123456'')), (env2 1000, Done InternalError)])
   \<and> reachable (\<lparr>users = [user1], loginCodes = [code1]\<rparr>,
        [(env1 1000, Done (Created ''u1'' ''123456'')), (env2 1000, Done InternalError)])
   \<and> distinct (map u_emailHash [user1])
   \<and> user_create \<lparr>users = [user1], loginCodes = [code1]\<rparr> ''u2'' 1000
        (hashString ''a@test.com'') (hashString ''5551234567'') = Inl UniqueViolation"
proof -
  let ?b2 = "[''email'' \<mapsto> JStr ''a@test.com '', ''phone'' \<mapsto> JStr ''5551234567'']"
  let ?init = "(emptyStore, [(env1 1000, Pending (Signup signupBody)),
                     (env2 1000, Pending (Signup ?b2))])"
  let ?db = "\<lparr>users = [user1], loginCodes = [code1]\<rparr>"
  let ?final = "(?db, [(env1 1000, Done (Created ''u1'' ''123456'')), (env2 1000, Done InternalError)])"
  have x: "exec [0, 1, 0, 1, 0, 1] ?init = ?final"
    by (simp add: field_def callOnString_def user_findUnique_def user_create_def
        loginCode_create_def hashEmail_examples hashPhone_example generateOTP_example
        length_hashString getOTPExpiry_eq Let_def)
  have "reachable (emptyStore, [] @ [(env1 1000, Pending (Signup signupBody))])"
    by (rule reachable.arrive) (rule reachable.start)
  then have "reachable (emptyStore, [(env1 1000, Pending (Signup signupBody))]
      @ [(env2 1000, Pending (Signup ?b2))])"
    by (intro reachable.arrive) simp
  then have "reachable ?init" by simp
  then have "reachable (exec [0, 1, 0, 1, 0, 1] ?init)" by (rule reachable_exec)
  then have r: "reachable ?final" by (simp only: x)
  from emailHash_unique [where db = ?db and db0 = ?db and emailHash = "hashString ''a@test.com''"
      and ts = "[(env1 1000, Done (Created ''u1'' ''123456'')), (env2 1000, Done InternalError)]"
      and newId = "''u2''" and createdAt = 1000 and phoneHash = "hashString ''5551234567''"] r
  have "distinct (map u_emailHash [user1])"
    and "user_create ?db ''u2'' 1000 (hashString ''a@test.com'') (hashString ''5551234567'')
       = Inl UniqueViolation"
    by simp_all
  with x r show ?thesis by simp
qed

subsection \<open>C6\<close>



subsection \<open>C7\<close>

text \<open>
  C7. For every integer that \<open>crypto.randomInt(0, 1000000)\<close> can return,
  \<open>generateOTP\<close> returns exactly six decimal digits: the decimal notation of that
  integer, padded with zeros on the left.
\<close>

theorem generateOTP_six_digits:
  assumes "code < 1000000"
  shows "length (generateOTP code) = 6 \<and> list_all isDigit (generateOTP code)
     \<and> decimalValue (generateOTP code) = code"
  using assms by (simp add: length_generateOTP isDigit_generateOTP decimalValue_generateOTP)

theorem generateOTP_six_digits_witness:
  "(42::nat) < 1000000 \<and> generateOTP 42 = ''000042'' \<and> length (generateOTP 42) = 6
     \<and> list_all isDigit (generateOTP 42) \<and> decimalValue (generateOTP 42) = 42
     \<and> generateOTP 0 = ''000000'' \<and> generateOTP 999999 = ''999999''"
proof -
  have "generateOTP 42 = ''000042''" "generateOTP 0 = ''000000''"
      "generateOTP 999999 = ''999999''"
    by (simp_all add: generateOTP_def padStart_zero toString.simps digitChar_def
        replicate_numeral)
  moreover have "(42::nat) < 1000000" by simp
  ultimately show ?thesis using generateOTP_six_digits [of 42] by simp
qed

subsection \<open>C8\<close>



subsection \<open>C9\<close>

text \<open>
  C9, as amended. A required field is rejected when it is falsy: absent, \<open>null\<close>,
  \<open>false\<close>, 0 or the empty string. Then \<open>signup\<close>, \<open>login\<close> and \<open>verify\<close> answer 400
  whatever the store holds, and return the store unchanged. When every required field
  is truthy the answer is never 400.
\<close>

theorem badRequest_when_falsy:
  "(\<not> truthy v \<longleftrightarrow> v \<in> {JUndefined, JNull, JBool False, JNum 0, JStr []})
   \<and> (\<not> truthy (field b ''email'') \<or> \<not> truthy (field b ''phone'') \<longrightarrow>
        signup e db b = (BadRequest ''Email and phone are required'', db))
   \<and> (\<not> truthy (field b ''email'') \<longrightarrow>
        login e db b = (BadRequest ''Email is required'', db))
   \<and> (\<not> truthy (field b ''userId'') \<or> \<not> truthy (field b ''code'') \<longrightarrow>
        verify e db b = (BadRequest ''User ID and code are required'', db))
   \<and> (truthy (field b ''email'') \<and> truthy (field b ''phone'') \<longrightarrow>
        status (fst (signup e db b)) \<noteq> 400)
   \<and> (truthy (field b ''email'') \<longrightarrow> status (fst (login e db b)) \<noteq> 400)
   \<and> (truthy (field b ''userId'') \<and> truthy (field b ''code'') \<longrightarrow>
        status (fst (verify e db b)) \<noteq> 400)"
  using falsy_iff [of v] signup_badRequest [of b e db] login_badRequest [of b e db]
    verify_badRequest [of b e db] signup_truthy_status [of b e db]
    login_truthy_status [of b e db] verify_truthy_status [of b e db]
  by blast

theorem badRequest_when_falsy_witness:
  "signup (env1 1000) \<lparr>users = [user1], loginCodes = [code1]\<rparr>
       [''email'' \<mapsto> JStr ''a@test.com'', ''phone'' \<mapsto> JStr []]
     = (BadRequest ''Email and phone are required'', \<lparr>users = [user1], loginCodes = [code1]\<rparr>)
   \<and> login (env1 1000) \<lparr>users = [user1], loginCodes = [code1]\<rparr> [''email'' \<mapsto> JNull]
     = (BadRequest ''Email is required'', \<lparr>users = [user1], loginCodes = [code1]\<rparr>)
   \<and> verify (env1 1000) \<lparr>users = [user1], loginCodes = [code1]\<rparr> [''userId'' \<mapsto> JStr ''u1'']
     = (BadRequest ''User ID and code are required'', \<lparr>users = [user1], loginCodes = [code1]\<rparr>)
   \<and> status (fst (verify (env1 1000) \<lparr>users = [user1], loginCodes = [code1]\<rparr> verifyBody)) \<noteq> 400"
proof -
  let ?db = "\<lparr>users = [user1], loginCodes = [code1]\<rparr>"
  have "signup (env1 1000) ?db [''email'' \<mapsto> JStr ''a@test.com'', ''phone'' \<mapsto> JStr []]
     = (BadRequest ''Email and phone are required'', ?db)"
    using badRequest_when_falsy [where b = "[''email'' \<mapsto> JStr ''a@test.com'', ''phone'' \<mapsto> JStr []]"
        and e = "env1 1000" and db = ?db]
    by (simp add: field_def)
  moreover have "login (env1 1000) ?db [''email'' \<mapsto> JNull] = (BadRequest ''Email is required'', ?db)"
    using badRequest_when_falsy [where b = "[''email'' \<mapsto> JNull]" and e = "env1 1000" and db = ?db]
    by (simp add: field_def)
  moreover have "verify (env1 1000) ?db [''userId'' \<mapsto> JStr ''u1'']
     = (BadRequest ''User ID and code are required'', ?db)"
    using badRequest_when_falsy [where b = "[''userId'' \<mapsto> JStr ''u1'']" and e = "env1 1000" and db = ?db]
    by (simp add: field_def)
  moreover have "status (fst (verify (env1 1000) ?db verifyBody)) \<noteq> 400"
    using badRequest_when_falsy [where b = verifyBody and e = "env1 1000" and db = ?db]
    by (simp add: field_def)
  ultimately show ?thesis by simp
qed

text \<open>
  C9 as stated fails for a malformed field that is truthy: a number or \<open>true\<close> for a
  field that must be a string answers 500 in all three handlers, and strings that are
  no email address and no phone number are accepted by \<open>signup\<close>.
\<close>

theorem malformed_field_counterexample:
  "signup (env1 1000) emptyStore [''email'' \<mapsto> JNum 5, ''phone'' \<mapsto> JStr ''5551234567'']
     = (InternalError, emptyStore)
   \<and> login (env1 1000) emptyStore [''email'' \<mapsto> JBool True] = (InternalError, emptyStore)
   \<and> verify (env1 1000) emptyStore [''userId'' \<mapsto> JNum 7, ''code'' \<mapsto> JStr ''123456'']
     = (InternalError, emptyStore)
   \<and> fst (signup (env1 1000) emptyStore
          [''email'' \<mapsto> JStr ''not an email'', ''phone'' \<mapsto> JStr ''abc''])
     = Created ''u1'' ''123456''"
  by (simp add: signup_def login_def verify_def field_def callOnString_def stringArg_def
      user_findUnique_def user_create_def loginCode_create_def generateOTP_example
      hashEmail_def hashPhone_def length_hashString Let_def)

subsection \<open>C10\<close>

text \<open>
  C10. A non-empty phone string without a decimal digit passes the validation of
  \<open>signup\<close>, \<open>normalizePhone\<close> maps it to the empty string, and its \<open>hashPhone\<close> is
  the SHA-256 digest of the empty string; the user that a successful \<open>signup\<close> stores
  carries this digest as \<open>phoneHash\<close>, the same for all such phones.
\<close>

theorem digitless_phone_hash:
  assumes "phone \<noteq> []" and "list_all (\<lambda>c. \<not> isDigit c) phone"
  shows "truthy (JStr phone) \<and> normalizePhone phone = []
     \<and> hashPhone phone = ''e3b0c44298fc1c149afbf4c8996fb92427ae41e4649b934ca495991b7852b855''
     \<and> hashPhone phone = hashString []
     \<and> (list_all (\<lambda>c. \<not> isDigit c) phone' \<longrightarrow> hashPhone phone' = hashPhone phone)
     \<and> (field b ''email'' = JStr email \<and> field b ''phone'' = JStr phone
          \<and> signup e db b = (Created uid otp, db') \<longrightarrow>
          users db' = users db @ [\<lparr>u_id = uid, u_emailHash = hashEmail email,
            u_phoneHash = ''e3b0c44298fc1c149afbf4c8996fb92427ae41e4649b934ca495991b7852b855'',
            u_createdAt = userCreatedAt e\<rparr>])"
proof -
  have h: "hashPhone phone = hashString []"
    using assms(2) by (simp add: hashPhone_def normalizePhone_digitless)
  have h': "hashPhone phone' = hashString []" if "list_all (\<lambda>c. \<not> isDigit c) phone'"
    using that by (simp add: hashPhone_def normalizePhone_digitless)
  show ?thesis
    using assms h h' signup_Created_user [of b email phone e db uid otp db']
    by (simp add: normalizePhone_digitless hashString_empty)
qed

theorem digitless_phone_hash_witness:
  "list_all (\<lambda>c. \<not> isDigit c) ''abc'' \<and> list_all (\<lambda>c. \<not> isDigit c) ''n/a''
   \<and> normalizePhone ''abc'' = []
   \<and> hashPhone ''abc'' = ''e3b0c44298fc1c149afbf4c8996fb92427ae41e4649b934ca495991b7852b855''
   \<and> hashPhone ''n/a'' = hashPhone ''abc''
   \<and> signup (env1 1000) emptyStore [''email'' \<mapsto> JStr ''A@Test.com'', ''phone'' \<mapsto> JStr ''abc'']
     = (Created ''u1'' ''123456'',
        \<lparr>users = [\<lparr>u_id = ''u1'', u_emailHash = hashString ''a@test.com'',
            u_phoneHash = ''e3b0c44298fc1c149afbf4c8996fb92427ae41e4649b934ca495991b7852b855'',
            u_createdAt = 1000\<rparr>],
         loginCodes = [code1]\<rparr>)"
proof -
  have d: "list_all (\<lambda>c. \<not> isDigit c) ''abc''" "list_all (\<lambda>c. \<not> isDigit c) ''n/a''"
    by (simp_all add: isDigit_def)
  note t = digitless_phone_hash [OF _ d(1), where phone' = "''n/a''"]
  from t d have p: "normalizePhone ''abc'' = []"
      "hashPhone ''abc'' = ''e3b0c44298fc1c149afbf4c8996fb92427ae41e4649b934ca495991b7852b855''"
      "hashPhone ''n/a'' = hashPhone ''abc''"
    by simp_all
  let ?b = "[''email'' \<mapsto> JStr ''A@Test.com'', ''phone'' \<mapsto> JStr ''abc'']"
  have f: "field ?b ''email'' = JStr ''A@Test.com''" "field ?b ''phone'' = JStr ''abc''"
    by (simp_all add: field_def)
  have "signup (env1 1000) emptyStore ?b
     = (Created ''u1'' ''123456'',
        \<lparr>users = [\<lparr>u_id = ''u1'', u_emailHash = hashString ''a@test.com'',
            u_phoneHash = ''e3b0c44298fc1c149afbf4c8996fb92427ae41e4649b934ca495991b7852b855'',
            u_createdAt = 1000\<rparr>],
         loginCodes = [code1]\<rparr>)"
    using signup_created [OF f(1) _ f(2), where db = emptyStore and e = "env1 1000"] p(2)
    by (simp add: hashEmail_examples generateOTP_example)
  with d p show ?thesis by simp
qed

end
